theory Spec2Isabelle
  imports Main "HOL-Library.Word"
begin

section \<open>The default main of the RTOS: os-main.cpp\<close>

text \<open>
  The file under verification holds two functions: the trampoline
  \<^verbatim>\<open>_main_trampoline\<close> (lines 49 to 53) and the weak default \<^verbatim>\<open>main\<close>
  (lines 66 to 112). Everything else they touch (the scheduler, the thread class, the
  trace channel, \<^verbatim>\<open>std::exit\<close>, the user's \<^verbatim>\<open>os_main\<close>) lives outside the file
  and appears here as a parameter or as a small model of its documented contract.
\<close>

subsection \<open>Data\<close>

text \<open>A C \<^verbatim>\<open>int\<close> (32 bits on the supported targets; \<open>sint\<close> reads it signed) and an address.\<close>

type_synonym cint = "32 word"
type_synonym addr = nat

text \<open>
  What a call of the user entry point can do, seen from the trampoline: come back with a
  status, never come back, or end the calling thread through the kernel without coming
  back (the case the comment at lines 106 to 108 waits for).
\<close>

datatype user_result = Returns cint | Never_returns | Thread_exits

text \<open>\<^verbatim>\<open>using main_func_t = int (*) (int argc, char* argv[])\<close>: a function pointer is
  modelled by the function it points to.\<close>

type_synonym main_func_t = "cint \<Rightarrow> addr \<Rightarrow> user_result"

text \<open>\<^verbatim>\<open>main_args_t\<close> (lines 40 to 45). \<open>None\<close> is the null function pointer of the
  zero-initialised static.\<close>

record main_args_t =
  func :: "main_func_t option"
  argc :: cint
  argv :: addr

text \<open>The two fields of \<^verbatim>\<open>thread::Attributes\<close> that main assigns, and the name given to
  its constructor.\<close>

record Attributes =
  th_name :: string
  th_stack_address :: addr
  th_stack_size_bytes :: nat

text \<open>
  What an instrumented build would log, in order: each call of a collaborator, each
  store to and load from the statics, and each way control leaves. \<open>Create_attempt\<close>
  carries what the thread constructor saw: whether the scheduler was initialised, the
  attributes and the argument pointer it was given.
\<close>

datatype event =
    Printed
  | Initialized
  | Stored_func main_func_t
  | Stored_argc cint
  | Stored_argv addr
  | Attr_constructed string
  | Stored_stack_address addr
  | Stored_stack_size nat
  | Create_attempt bool Attributes addr
  | Started
  | Loaded main_args_t
  | Called main_func_t cint addr
  | Exit_requested cint
  | Thread_terminated
  | Join_called
  | Join_returned
  | Main_returned cint

text \<open>How the body of a thread ends.\<close>

datatype thread_end =
    Process_exit cint
  | Runs_forever
  | Thread_ended
  | Undefined_behaviour

type_synonym func_t = "(addr \<rightharpoonup> main_args_t) \<Rightarrow> addr \<Rightarrow> event list \<times> thread_end"

datatype thread_state = Ready | Running | Terminated

text \<open>The kernel's thread object, as far as main and its trampoline can tell.\<close>

record Thread =
  th_attr :: Attributes
  th_func :: func_t
  th_args :: addr
  th_state :: thread_state

text \<open>
  The build and the kernel the file is linked against: the user's \<^verbatim>\<open>os_main\<close>, the
  configuration constant and \<^verbatim>\<open>sizeof(stack::element_t)\<close> of lines 92 and 93, the
  addresses the linker gave to the statics \<^verbatim>\<open>args\<close> and \<^verbatim>\<open>main_stack\<close>, whether
  \<^verbatim>\<open>scheduler::start\<close> comes back, and whether the kernel has a control block left.
\<close>

record platform =
  os_main :: main_func_t
  OS_INTEGER_RTOS_MAIN_STACK_SIZE_BYTES :: nat
  sizeof_element_t :: nat
  addr_args :: addr
  addr_main_stack :: addr
  start_returns :: bool
  thread_resources :: bool

text \<open>Where the context that entered main stands once it has called
  \<^verbatim>\<open>scheduler::start\<close>.\<close>

datatype boot_pc =
    In_driver
  | In_start
  | At_join
  | In_join
  | At_return
  | Left_main

datatype status = Alive | Returned cint | Exited cint | Fatal | Undefined

record state =
  args :: main_args_t
  attr :: Attributes
  main_thread :: "Thread option"
  sched_initialized :: bool
  sched_started :: bool
  boot :: boot_pc
  status :: status
  trace :: "event list"

text \<open>Statics are zero-initialised before main runs.\<close>

definition initial :: state where
  "initial =
     \<lparr>args = \<lparr>func = None, argc = 0, argv = 0\<rparr>,
      attr = \<lparr>th_name = [], th_stack_address = 0, th_stack_size_bytes = 0\<rparr>,
      main_thread = None,
      sched_initialized = False,
      sched_started = False,
      boot = In_driver,
      status = Alive,
      trace = []\<rparr>"

definition emit :: "event list \<Rightarrow> state \<Rightarrow> state" where
  "emit es s = s\<lparr>trace := trace s @ es\<rparr>"

subsection \<open>The trampoline\<close>

text \<open>
  \<^verbatim>\<open>std::exit (args->func (args->argc, args->argv));\<close>
  The pointer is looked up in the memory that holds capsules; a pointer to nothing and a
  null entry point are undefined behaviour. The three members are read, the entry point
  is called, and only if it comes back is \<^verbatim>\<open>std::exit\<close> reached.
\<close>

definition main_trampoline :: func_t where
  "main_trampoline mem p =
     (case mem p of
        None \<Rightarrow> ([], Undefined_behaviour)
      | Some a \<Rightarrow>
          (case func a of
             None \<Rightarrow> ([Loaded a], Undefined_behaviour)
           | Some f \<Rightarrow>
               (case f (argc a) (argv a) of
                  Returns v \<Rightarrow>
                    ([Loaded a, Called f (argc a) (argv a), Exit_requested v], Process_exit v)
                | Never_returns \<Rightarrow>
                    ([Loaded a, Called f (argc a) (argv a)], Runs_forever)
                | Thread_exits \<Rightarrow>
                    ([Loaded a, Called f (argc a) (argv a)], Thread_ended))))"

subsection \<open>The collaborators\<close>

text \<open>
  Modelled from the spec: \<^verbatim>\<open>trace::printf\<close> (declared in cmsis-plus/diag/trace.h, not in
  this file). Diagnostic output, "informational only".
\<close>

definition trace_printf :: "state \<Rightarrow> state" where
  "trace_printf s = emit [Printed] s"

text \<open>
  Modelled from the spec: \<^verbatim>\<open>scheduler::initialize\<close> (not in this file), which "prepares
  scheduling data structures". Its failure on resource exhaustion is abstracted, as the
  spec does.
\<close>

definition scheduler_initialize :: "state \<Rightarrow> state" where
  "scheduler_initialize s = emit [Initialized] (s\<lparr>sched_initialized := True\<rparr>)"

text \<open>
  Modelled from the spec: the constructor of \<^verbatim>\<open>thread::Attributes\<close> (not in this file),
  which names the thread. The defaults it gives to the two stack fields are taken as
  null and zero; main overwrites both before the attributes are used.
\<close>

definition Attributes_ctor :: "string \<Rightarrow> state \<Rightarrow> state" where
  "Attributes_ctor nm s =
     emit [Attr_constructed nm]
       (s\<lparr>attr := \<lparr>th_name = nm, th_stack_address = 0, th_stack_size_bytes = 0\<rparr>\<rparr>)"

text \<open>
  Modelled from the spec: the constructor of \<^verbatim>\<open>Thread\<close> (not in this file). It
  "accepts a name, a body function matching the fixed trampoline signature, a single
  opaque argument, and a caller-owned stack region"; with a stack of size 0 "thread
  creation [is] reported as a fatal configuration error, never silently succeeds", and
  so is a creation without control-block resources. A fatal error ends the run: the
  constructor has no result main could test. The thread it creates does not run before
  the scheduler dispatches it.
\<close>

definition Thread_ctor :: "platform \<Rightarrow> Attributes \<Rightarrow> func_t \<Rightarrow> addr \<Rightarrow> state \<Rightarrow> state" where
  "Thread_ctor pf at f a s =
     (let s' = emit [Create_attempt (sched_initialized s) at a] s
      in if 0 < th_stack_size_bytes at \<and> thread_resources pf
         then s'\<lparr>main_thread :=
                   Some \<lparr>th_attr = at, th_func = f, th_args = a, th_state = Ready\<rparr>\<rparr>
         else s'\<lparr>status := Fatal\<rparr>)"

text \<open>
  Modelled from the spec: \<^verbatim>\<open>scheduler::start\<close> (not in this file), which "begins
  dispatching created threads, and is kernel-defined whether it returns to its caller".
  Where it returns, the caller goes on to line 109; where it does not, the caller stays
  inside the call for good.
\<close>

definition scheduler_start :: "platform \<Rightarrow> state \<Rightarrow> state" where
  "scheduler_start pf s =
     emit [Started]
       (s\<lparr>sched_started := True,
          boot := (if start_returns pf then At_join else In_start)\<rparr>)"

text \<open>
  Modelled from the spec: one turn of the kernel's dispatcher for the main thread (not in
  this file). Once the scheduler is started, a ready thread gets its body called with the
  argument given at creation, in a memory where the static \<^verbatim>\<open>args\<close> sits at its address.
  \<^verbatim>\<open>std::exit\<close> "accepts an integer status and ends the hosting process/environment; does
  not return".
\<close>

definition dispatch :: "platform \<Rightarrow> state \<Rightarrow> state" where
  "dispatch pf s =
     (case main_thread s of
        None \<Rightarrow> s
      | Some t \<Rightarrow>
          if sched_started s \<and> th_state t = Ready
          then (case th_func t [addr_args pf \<mapsto> args s] (th_args t) of
                  (es, Process_exit v) \<Rightarrow> (emit es s)\<lparr>status := Exited v\<rparr>
                | (es, Runs_forever) \<Rightarrow>
                    (emit es s)\<lparr>main_thread := Some (t\<lparr>th_state := Running\<rparr>)\<rparr>
                | (es, Thread_ended) \<Rightarrow>
                    (emit (es @ [Thread_terminated]) s)
                      \<lparr>main_thread := Some (t\<lparr>th_state := Terminated\<rparr>)\<rparr>
                | (es, Undefined_behaviour) \<Rightarrow> (emit es s)\<lparr>status := Undefined\<rparr>)
          else s)"

subsection \<open>main\<close>

text \<open>
  \<^verbatim>\<open>static stack::element_t main_stack[OS_INTEGER_RTOS_MAIN_STACK_SIZE_BYTES
      / sizeof(stack::element_t)];\<close>
  The array has that many elements, and \<^verbatim>\<open>sizeof(main_stack)\<close> is the number of elements
  times the size of one. The quotient is at most the constant, so nothing wraps.
\<close>

definition main_stack_elements :: "platform \<Rightarrow> nat" where
  "main_stack_elements pf = OS_INTEGER_RTOS_MAIN_STACK_SIZE_BYTES pf div sizeof_element_t pf"

definition sizeof_main_stack :: "platform \<Rightarrow> nat" where
  "sizeof_main_stack pf = main_stack_elements pf * sizeof_element_t pf"

text \<open>
  Lines 74 to 104 of main, statement by statement. The context that runs them is the
  only one there is until \<^verbatim>\<open>scheduler::start\<close> is called.
\<close>

definition main_to_start :: "platform \<Rightarrow> cint \<Rightarrow> addr \<Rightarrow> state" where
  "main_to_start pf argc' argv' =
     (let s = trace_printf initial;  \<comment> \<open>line 74\<close>
          s = scheduler_initialize s;  \<comment> \<open>line 76\<close>
          s = emit [Stored_func (os_main pf)]
                (s\<lparr>args := (args s)\<lparr>func := Some (os_main pf)\<rparr>\<rparr>);  \<comment> \<open>line 84\<close>
          s = emit [Stored_argc argc']
                (s\<lparr>args := (args s)\<lparr>argc := argc'\<rparr>\<rparr>);  \<comment> \<open>line 85\<close>
          s = emit [Stored_argv argv']
                (s\<lparr>args := (args s)\<lparr>argv := argv'\<rparr>\<rparr>);  \<comment> \<open>line 86\<close>
          s = Attributes_ctor ''main'' s;  \<comment> \<open>lines 95 and 96\<close>
          s = emit [Stored_stack_address (addr_main_stack pf)]
                (s\<lparr>attr := (attr s)\<lparr>th_stack_address := addr_main_stack pf\<rparr>\<rparr>);  \<comment> \<open>line 97\<close>
          s = emit [Stored_stack_size (sizeof_main_stack pf)]
                (s\<lparr>attr := (attr s)\<lparr>th_stack_size_bytes := sizeof_main_stack pf\<rparr>\<rparr>);  \<comment> \<open>line 98\<close>
          s = Thread_ctor pf (attr s) main_trampoline (addr_args pf) s  \<comment> \<open>lines 100 to 102\<close>
      in if status s = Alive then scheduler_start pf s else s)  \<comment> \<open>line 104\<close>"

text \<open>
  Modelled from the spec: \<^verbatim>\<open>Thread::join\<close> (not in this file), the "blocking
  join-equivalent wait" that "blocks the calling context until thread termination, with
  no timeout": a call of it comes back only once the thread is in its terminal state.
\<close>

definition join_returns :: "Thread \<Rightarrow> bool" where
  "join_returns t \<longleftrightarrow> th_state t = Terminated"

text \<open>
  Lines 109 to 111 of main, one step at a time: call \<^verbatim>\<open>main_thread.join ()\<close>; wait in
  it; \<^verbatim>\<open>return 0\<close>. In every other position the context has nothing left to do.
\<close>

definition main_after_start :: "state \<Rightarrow> state" where
  "main_after_start s =
     (case boot s of
        At_join \<Rightarrow> emit [Join_called] (s\<lparr>boot := In_join\<rparr>)  \<comment> \<open>line 109, the call\<close>
      | In_join \<Rightarrow>
          (case main_thread s of
             None \<Rightarrow> s
           | Some t \<Rightarrow>
               if join_returns t
               then emit [Join_returned] (s\<lparr>boot := At_return\<rparr>)  \<comment> \<open>line 109, the return\<close>
               else s)
      | At_return \<Rightarrow>
          emit [Main_returned 0] (s\<lparr>boot := Left_main, status := Returned 0\<rparr>)  \<comment> \<open>line 111\<close>
      | _ \<Rightarrow> s)"

text \<open>
  After the start there are two contexts, and the kernel decides which one moves next.
  A schedule is the list of its decisions; a context that cannot move (blocked, gone,
  not ready) lets its turn pass, and nothing moves once the process has ended. The body
  of the thread is a single step: all the first context could interleave with it is the
  join, which looks at nothing but the state of the thread.
\<close>

datatype ctx = Boot | Main_thread

definition step :: "platform \<Rightarrow> ctx \<Rightarrow> state \<Rightarrow> state" where
  "step pf c s =
     (if status s = Alive
      then (case c of Boot \<Rightarrow> main_after_start s | Main_thread \<Rightarrow> dispatch pf s)
      else s)"

fun run :: "platform \<Rightarrow> ctx list \<Rightarrow> state \<Rightarrow> state" where
  "run pf [] s = s"
| "run pf (c # cs) s = run pf cs (step pf c s)"

text \<open>The whole of main under a schedule.\<close>

definition main :: "platform \<Rightarrow> ctx list \<Rightarrow> cint \<Rightarrow> addr \<Rightarrow> state" where
  "main pf sched argc' argv' = run pf sched (main_to_start pf argc' argv')"

subsection \<open>Reading a log\<close>

text \<open>The calls of the user entry point, the termination requests, the reads of the
  capsule, the attempts to create a thread, the stores to the capsule and the returns
  of main that a log holds, each in order.\<close>

definition calls :: "event list \<Rightarrow> (main_func_t \<times> cint \<times> addr) list" where
  "calls es = [(f, n, a). Called f n a \<leftarrow> es]"

definition exit_requests :: "event list \<Rightarrow> cint list" where
  "exit_requests es = [v. Exit_requested v \<leftarrow> es]"

definition loads :: "event list \<Rightarrow> main_args_t list" where
  "loads es = [c. Loaded c \<leftarrow> es]"

definition create_attempts :: "event list \<Rightarrow> (bool \<times> Attributes \<times> addr) list" where
  "create_attempts es = [(i, at, p). Create_attempt i at p \<leftarrow> es]"

fun is_store :: "event \<Rightarrow> bool" where
  "is_store (Stored_func f) = True"
| "is_store (Stored_argc n) = True"
| "is_store (Stored_argv a) = True"
| "is_store _ = False"

definition stores :: "event list \<Rightarrow> event list" where
  "stores es = filter is_store es"

fun is_create :: "event \<Rightarrow> bool" where
  "is_create (Create_attempt i at p) = True"
| "is_create _ = False"

definition main_returns :: "event list \<Rightarrow> cint list" where
  "main_returns es = [r. Main_returned r \<leftarrow> es]"

text \<open>
  \<open>precedes A B xs\<close>: reading the log from its start, no \<open>B\<close> is met until an \<open>A\<close> has
  been met; so every \<open>B\<close> in the log has an \<open>A\<close> strictly before it (lemma
  \<open>precedes_iff\<close> below).
\<close>

fun precedes :: "('a \<Rightarrow> bool) \<Rightarrow> ('a \<Rightarrow> bool) \<Rightarrow> 'a list \<Rightarrow> bool" where
  "precedes A B [] = True"
| "precedes A B (x # xs) = (if B x then False else if A x then True else precedes A B xs)"

subsection \<open>What holds of every state main can reach\<close>

text \<open>The capsule and the attributes main builds, and the log of lines 74 to 102.\<close>

definition capsule :: "platform \<Rightarrow> cint \<Rightarrow> addr \<Rightarrow> main_args_t" where
  "capsule pf n a = \<lparr>func = Some (os_main pf), argc = n, argv = a\<rparr>"

definition main_attr :: "platform \<Rightarrow> Attributes" where
  "main_attr pf = \<lparr>th_name = ''main'', th_stack_address = addr_main_stack pf,
                    th_stack_size_bytes = sizeof_main_stack pf\<rparr>"

definition driver_trace :: "platform \<Rightarrow> cint \<Rightarrow> addr \<Rightarrow> event list" where
  "driver_trace pf n a =
     [Printed, Initialized, Stored_func (os_main pf), Stored_argc n, Stored_argv a,
      Attr_constructed ''main'', Stored_stack_address (addr_main_stack pf),
      Stored_stack_size (sizeof_main_stack pf),
      Create_attempt True (main_attr pf) (addr_args pf)]"

text \<open>The thread constructor succeeds on this platform.\<close>

definition created :: "platform \<Rightarrow> bool" where
  "created pf \<longleftrightarrow> 0 < sizeof_main_stack pf \<and> thread_resources pf"

text \<open>The main thread has not been dispatched yet; the main thread has ended.\<close>

definition fresh :: "state \<Rightarrow> bool" where
  "fresh s \<longleftrightarrow>
     status s = Alive \<and> (case main_thread s of None \<Rightarrow> False | Some t \<Rightarrow> th_state t = Ready)"

definition terminated :: "state \<Rightarrow> bool" where
  "terminated s \<longleftrightarrow>
     (case main_thread s of None \<Rightarrow> False | Some t \<Rightarrow> th_state t = Terminated)"

text \<open>
  The invariant of the states after \<^verbatim>\<open>scheduler::start\<close>, in three parts: what the
  thread has done so far, by its state; where the first context stands, by its position;
  and the statics, which no step touches. \<open>post\<close> is the log since the start.
\<close>

definition thread_inv :: "platform \<Rightarrow> cint \<Rightarrow> addr \<Rightarrow> state \<Rightarrow> Thread \<Rightarrow> event list \<Rightarrow> bool" where
  "thread_inv pf n a s t post \<longleftrightarrow>
     th_attr t = main_attr pf \<and> th_func t = main_trampoline \<and> th_args t = addr_args pf \<and>
     (case th_state t of
        Ready \<Rightarrow>
          (case status s of
             Alive \<Rightarrow> loads post = [] \<and> calls post = [] \<and> exit_requests post = []
                      \<and> Thread_terminated \<notin> set post
           | Exited v \<Rightarrow> os_main pf n a = Returns v \<and> loads post = [capsule pf n a]
                      \<and> calls post = [(os_main pf, n, a)] \<and> exit_requests post = [v]
                      \<and> Thread_terminated \<notin> set post
           | _ \<Rightarrow> False)
      | Running \<Rightarrow> status s = Alive \<and> os_main pf n a = Never_returns
                      \<and> loads post = [capsule pf n a]
                      \<and> calls post = [(os_main pf, n, a)] \<and> exit_requests post = []
                      \<and> Thread_terminated \<notin> set post
      | Terminated \<Rightarrow> (status s = Alive \<or> status s = Returned 0)
                      \<and> os_main pf n a = Thread_exits
                      \<and> loads post = [capsule pf n a]
                      \<and> calls post = [(os_main pf, n, a)] \<and> exit_requests post = []
                      \<and> Thread_terminated \<in> set post)"

definition boot_inv :: "platform \<Rightarrow> state \<Rightarrow> Thread \<Rightarrow> event list \<Rightarrow> bool" where
  "boot_inv pf s t post \<longleftrightarrow>
     (if start_returns pf then boot s \<in> {At_join, In_join, At_return, Left_main}
      else boot s = In_start) \<and>
     (Join_called \<in> set post \<longleftrightarrow> boot s \<in> {In_join, At_return, Left_main}) \<and>
     (Join_returned \<in> set post \<longleftrightarrow> boot s \<in> {At_return, Left_main}) \<and>
     main_returns post = (if boot s = Left_main then [0] else []) \<and>
     (\<forall>r. status s = Returned r \<longleftrightarrow> boot s = Left_main \<and> r = 0) \<and>
     (boot s \<in> {At_return, Left_main} \<longrightarrow> th_state t = Terminated) \<and>
     precedes (\<lambda>e. e = Join_called) (\<lambda>e. e = Join_returned) post \<and>
     precedes (\<lambda>e. e = Thread_terminated) (\<lambda>e. e = Join_returned) post \<and>
     precedes (\<lambda>e. e = Join_returned) (\<lambda>e. e = Main_returned 0) post"

definition started_inv :: "platform \<Rightarrow> cint \<Rightarrow> addr \<Rightarrow> state \<Rightarrow> bool" where
  "started_inv pf n a s \<longleftrightarrow>
     args s = capsule pf n a \<and> attr s = main_attr pf \<and> sched_initialized s \<and> sched_started s \<and>
     (\<exists>t post. main_thread s = Some t \<and> trace s = driver_trace pf n a @ Started # post
        \<and> create_attempts post = [] \<and> stores post = [] \<and> thread_inv pf n a s t post
        \<and> boot_inv pf s t post)"

subsection \<open>Two builds to run\<close>

text \<open>
  A host build, where \<^verbatim>\<open>scheduler::start\<close> returns, and an embedded one, where it does
  not. Their \<^verbatim>\<open>os_main\<close> returns 7 when given three arguments and otherwise ends its
  thread; the stack is configured with 1030 bytes, in elements of 8.
\<close>

definition host_build :: platform where
  "host_build =
     \<lparr>os_main = (\<lambda>n a. if n = 3 then Returns 7 else Thread_exits),
      OS_INTEGER_RTOS_MAIN_STACK_SIZE_BYTES = 1030, sizeof_element_t = 8,
      addr_args = 100, addr_main_stack = 200,
      start_returns = True, thread_resources = True\<rparr>"

definition embedded_build :: platform where
  "embedded_build = host_build\<lparr>start_returns := False\<rparr>"

section \<open>Lemmas\<close>

text \<open>
  The plan: lines 74 to 104 have a closed form, with the thread created or with the
  fatal error; after a fatal error no step changes anything; after a start,
  \<open>started_inv\<close> holds and every step keeps it. What the claims say is then read off
  the closed form or the invariant.
\<close>

lemma precedes_append:
  "precedes A B (xs @ ys) = (precedes A B xs \<and> ((\<exists>x\<in>set xs. A x) \<or> precedes A B ys))"
  by (induction xs) auto

lemma main_to_start_created:
  assumes "0 < sizeof_main_stack pf" and "thread_resources pf"
  shows "main_to_start pf n a =
     \<lparr>args = capsule pf n a, attr = main_attr pf,
      main_thread = Some \<lparr>th_attr = main_attr pf, th_func = main_trampoline,
                          th_args = addr_args pf, th_state = Ready\<rparr>,
      sched_initialized = True, sched_started = True,
      boot = (if start_returns pf then At_join else In_start),
      status = Alive, trace = driver_trace pf n a @ [Started]\<rparr>"
  using assms
  by (simp add: main_to_start_def Let_def emit_def initial_def trace_printf_def
      scheduler_initialize_def Attributes_ctor_def Thread_ctor_def scheduler_start_def
      capsule_def main_attr_def driver_trace_def)

lemma main_to_start_fatal:
  assumes "\<not> (0 < sizeof_main_stack pf \<and> thread_resources pf)"
  shows "main_to_start pf n a =
     \<lparr>args = capsule pf n a, attr = main_attr pf, main_thread = None,
      sched_initialized = True, sched_started = False, boot = In_driver,
      status = Fatal, trace = driver_trace pf n a\<rparr>"
proof -
  have c: "(0 < sizeof_main_stack pf \<and> thread_resources pf) = False"
    using assms by simp
  show ?thesis
    by (simp add: main_to_start_def Let_def emit_def initial_def trace_printf_def
        scheduler_initialize_def Attributes_ctor_def Thread_ctor_def scheduler_start_def
        capsule_def main_attr_def driver_trace_def c)
qed

lemma run_not_alive: "status s \<noteq> Alive \<Longrightarrow> run pf sched s = s"
  by (induction sched) (simp_all add: step_def)

lemma run_append: "run pf (xs @ ys) s = run pf ys (run pf xs s)"
  by (induction xs arbitrary: s) simp_all

lemma inv_start:
  assumes "0 < sizeof_main_stack pf" and "thread_resources pf"
  shows "started_inv pf n a (main_to_start pf n a)"
  by (simp add: main_to_start_created [OF assms] started_inv_def thread_inv_def boot_inv_def
      loads_def calls_def exit_requests_def create_attempts_def stores_def main_returns_def)

lemma trampoline_capsule:
  "main_trampoline [p \<mapsto> capsule pf n a] p =
     (case os_main pf n a of
        Returns v \<Rightarrow> ([Loaded (capsule pf n a), Called (os_main pf) n a, Exit_requested v], Process_exit v)
      | Never_returns \<Rightarrow> ([Loaded (capsule pf n a), Called (os_main pf) n a], Runs_forever)
      | Thread_exits \<Rightarrow> ([Loaded (capsule pf n a), Called (os_main pf) n a], Thread_ended))"
  by (simp add: main_trampoline_def capsule_def split: user_result.split)

lemma loads_simps [simp]:
  "loads [] = []"
  "loads (xs @ ys) = loads xs @ loads ys"
  "loads (e # es) = (case e of Loaded c \<Rightarrow> [c] | _ \<Rightarrow> []) @ loads es"
  by (simp_all add: loads_def)

lemma calls_simps [simp]:
  "calls [] = []"
  "calls (xs @ ys) = calls xs @ calls ys"
  "calls (e # es) = (case e of Called f n a \<Rightarrow> [(f, n, a)] | _ \<Rightarrow> []) @ calls es"
  by (simp_all add: calls_def)

lemma exit_requests_simps [simp]:
  "exit_requests [] = []"
  "exit_requests (xs @ ys) = exit_requests xs @ exit_requests ys"
  "exit_requests (e # es) = (case e of Exit_requested v \<Rightarrow> [v] | _ \<Rightarrow> []) @ exit_requests es"
  by (simp_all add: exit_requests_def)

lemma create_attempts_simps [simp]:
  "create_attempts [] = []"
  "create_attempts (xs @ ys) = create_attempts xs @ create_attempts ys"
  "create_attempts (e # es) =
     (case e of Create_attempt i at p \<Rightarrow> [(i, at, p)] | _ \<Rightarrow> []) @ create_attempts es"
  by (simp_all add: create_attempts_def)

lemma stores_simps [simp]:
  "stores [] = []"
  "stores (xs @ ys) = stores xs @ stores ys"
  "stores (e # es) = (if is_store e then e # stores es else stores es)"
  by (simp_all add: stores_def)

lemma main_returns_simps [simp]:
  "main_returns [] = []"
  "main_returns (xs @ ys) = main_returns xs @ main_returns ys"
  "main_returns (e # es) = (case e of Main_returned r \<Rightarrow> [r] | _ \<Rightarrow> []) @ main_returns es"
  by (simp_all add: main_returns_def)

lemma inv_boot_step:
  assumes "started_inv pf n a s" and "status s = Alive"
  shows "started_inv pf n a (main_after_start s)"
proof -
  from assms(1) obtain t post where
    st: "args s = capsule pf n a" "attr s = main_attr pf" "sched_initialized s" "sched_started s"
      "main_thread s = Some t" "trace s = driver_trace pf n a @ Started # post"
      "create_attempts post = []" "stores post = []" and
    ti: "thread_inv pf n a s t post" and bi: "boot_inv pf s t post"
    by (auto simp: started_inv_def)
  show ?thesis
  proof (cases "boot s")
    case At_join
    have "thread_inv pf n a (main_after_start s) t (post @ [Join_called])"
      using ti At_join assms(2)
      by (cases "th_state t") (simp_all add: thread_inv_def main_after_start_def join_returns_def emit_def)
    moreover have "boot_inv pf (main_after_start s) t (post @ [Join_called])"
      using bi At_join assms(2)
      by (simp add: boot_inv_def main_after_start_def join_returns_def emit_def precedes_append split: if_splits)
    ultimately show ?thesis
      using st At_join by (simp add: started_inv_def main_after_start_def join_returns_def emit_def)
  next
    case In_join
    show ?thesis
    proof (cases "th_state t = Terminated")
      case True
      have "thread_inv pf n a (main_after_start s) t (post @ [Join_returned])"
        using ti In_join assms(2) True st(5)
        by (simp add: thread_inv_def main_after_start_def join_returns_def emit_def)
      moreover have "boot_inv pf (main_after_start s) t (post @ [Join_returned])"
        using bi ti In_join assms(2) True st(5)
        by (simp add: boot_inv_def thread_inv_def main_after_start_def join_returns_def emit_def precedes_append
            split: if_splits)
      ultimately show ?thesis
        using st In_join True by (simp add: started_inv_def main_after_start_def join_returns_def emit_def)
    next
      case False
      then have "main_after_start s = s"
        using In_join st(5) by (simp add: main_after_start_def join_returns_def)
      then show ?thesis using assms(1) by simp
    qed
  next
    case At_return
    have T: "th_state t = Terminated"
      using bi At_return by (simp add: boot_inv_def)
    have "thread_inv pf n a (main_after_start s) t (post @ [Main_returned 0])"
      using ti At_return assms(2) T
      by (simp add: thread_inv_def main_after_start_def join_returns_def emit_def)
    moreover have "boot_inv pf (main_after_start s) t (post @ [Main_returned 0])"
      using bi At_return assms(2) T
      by (simp add: boot_inv_def main_after_start_def join_returns_def emit_def precedes_append split: if_splits)
    ultimately show ?thesis
      using st At_return by (simp add: started_inv_def main_after_start_def join_returns_def emit_def)
  qed (use assms(1) in \<open>simp_all add: main_after_start_def\<close>)
qed

lemma inv_dispatch:
  assumes "started_inv pf n a s" and "status s = Alive"
  shows "started_inv pf n a (dispatch pf s)"
proof -
  from assms(1) obtain t post where
    st: "args s = capsule pf n a" "attr s = main_attr pf" "sched_initialized s" "sched_started s"
      "main_thread s = Some t" "trace s = driver_trace pf n a @ Started # post"
      "create_attempts post = []" "stores post = []" and
    ti: "thread_inv pf n a s t post" and bi: "boot_inv pf s t post"
    by (auto simp: started_inv_def)
  have tf: "th_func t = main_trampoline" "th_args t = addr_args pf" "th_attr t = main_attr pf"
    using ti by (simp_all add: thread_inv_def)
  show ?thesis
  proof (cases "th_state t = Ready")
    case False
    then have "dispatch pf s = s" using st(5) by (simp add: dispatch_def)
    then show ?thesis using assms(1) by simp
  next
    case True
    have nb: "boot s \<noteq> At_return" "boot s \<noteq> Left_main"
      using bi True by (auto simp: boot_inv_def)
    have fresh: "loads post = []" "calls post = []" "exit_requests post = []"
      "Thread_terminated \<notin> set post"
      using ti True assms(2) by (simp_all add: thread_inv_def)
    show ?thesis
    proof (cases "os_main pf n a")
      case (Returns v)
      let ?es = "[Loaded (capsule pf n a), Called (os_main pf) n a, Exit_requested v]"
      have d: "dispatch pf s = (emit ?es s)\<lparr>status := Exited v\<rparr>"
        using st True tf Returns by (simp add: dispatch_def trampoline_capsule)
      have "thread_inv pf n a (dispatch pf s) t (post @ ?es)"
        using True tf Returns fresh by (simp add: d thread_inv_def emit_def)
      moreover have "boot_inv pf (dispatch pf s) t (post @ ?es)"
        using bi nb assms(2)
        by (simp add: d boot_inv_def emit_def precedes_append split: if_splits)
      ultimately show ?thesis
        using st by (simp add: started_inv_def d emit_def)
    next
      case Never_returns
      let ?es = "[Loaded (capsule pf n a), Called (os_main pf) n a]"
      let ?t = "t\<lparr>th_state := Running\<rparr>"
      have d: "dispatch pf s = (emit ?es s)\<lparr>main_thread := Some ?t\<rparr>"
        using st True tf Never_returns by (simp add: dispatch_def trampoline_capsule)
      have "thread_inv pf n a (dispatch pf s) ?t (post @ ?es)"
        using True tf Never_returns fresh assms(2) by (simp add: d thread_inv_def emit_def)
      moreover have "boot_inv pf (dispatch pf s) ?t (post @ ?es)"
        using bi nb assms(2)
        by (simp add: d boot_inv_def emit_def precedes_append split: if_splits)
      ultimately show ?thesis
        using st by (simp add: started_inv_def d emit_def)
    next
      case Thread_exits
      let ?es = "[Loaded (capsule pf n a), Called (os_main pf) n a, Thread_terminated]"
      let ?t = "t\<lparr>th_state := Terminated\<rparr>"
      have d: "dispatch pf s = (emit ?es s)\<lparr>main_thread := Some ?t\<rparr>"
        using st True tf Thread_exits by (simp add: dispatch_def trampoline_capsule)
      have "thread_inv pf n a (dispatch pf s) ?t (post @ ?es)"
        using True tf Thread_exits fresh assms(2) by (simp add: d thread_inv_def emit_def)
      moreover have "boot_inv pf (dispatch pf s) ?t (post @ ?es)"
        using bi nb assms(2)
        by (simp add: d boot_inv_def emit_def precedes_append split: if_splits)
      ultimately show ?thesis
        using st by (simp add: started_inv_def d emit_def)
    qed
  qed
qed

lemma inv_step: "started_inv pf n a s \<Longrightarrow> started_inv pf n a (step pf c s)"
  by (cases c) (simp_all add: step_def inv_boot_step inv_dispatch)

lemma inv_run: "started_inv pf n a s \<Longrightarrow> started_inv pf n a (run pf sched s)"
  by (induction sched arbitrary: s) (simp_all add: inv_step)


text \<open>What \<open>precedes\<close> means, by positions in the log.\<close>

lemma precedes_iff:
  "precedes A B xs \<longleftrightarrow> (\<forall>i<length xs. B (xs ! i) \<longrightarrow> (\<exists>j<i. A (xs ! j)))"
proof (induction xs)
  case Nil
  then show ?case by simp
next
  case (Cons x xs)
  show ?case
  proof (cases "B x")
    case True
    then show ?thesis by auto
  next
    case nB: False
    show ?thesis
    proof (cases "A x")
      case True
      then show ?thesis using nB by (auto simp: nth_Cons split: nat.splits)
    next
      case False
      have "(\<forall>i<length (x # xs). B ((x # xs) ! i) \<longrightarrow> (\<exists>j<i. A ((x # xs) ! j)))
          \<longleftrightarrow> (\<forall>i<length xs. B (xs ! i) \<longrightarrow> (\<exists>j<i. A (xs ! j)))" (is "?L \<longleftrightarrow> ?R")
      proof
        assume L: ?L
        show ?R
        proof (intro allI impI)
          fix i assume i: "i < length xs" "B (xs ! i)"
          with L obtain j where j: "j < Suc i" "A ((x # xs) ! j)" by force
          with False obtain k where "j = Suc k" by (cases j) auto
          with j show "\<exists>j<i. A (xs ! j)" by auto
        qed
      next
        assume R: ?R
        show ?L
        proof (intro allI impI)
          fix i assume i: "i < length (x # xs)" "B ((x # xs) ! i)"
          with nB obtain k where k: "i = Suc k" by (cases i) auto
          with i R obtain j where "j < k" "A (xs ! j)" by auto
          then have "Suc j < i" "A ((x # xs) ! Suc j)" using k by auto
          then show "\<exists>j<i. A ((x # xs) ! j)" by blast
        qed
      qed
      then show ?thesis using False nB Cons.IH by simp
    qed
  qed
qed

lemma main_fatal:
  assumes "\<not> created pf"
  shows "main pf sched n a =
     \<lparr>args = capsule pf n a, attr = main_attr pf, main_thread = None,
      sched_initialized = True, sched_started = False, boot = In_driver,
      status = Fatal, trace = driver_trace pf n a\<rparr>"
proof -
  have f: "\<not> (0 < sizeof_main_stack pf \<and> thread_resources pf)"
    using assms by (simp add: created_def)
  show ?thesis
    by (simp add: main_def main_to_start_fatal [OF f] run_not_alive)
qed

lemma main_inv:
  assumes "created pf"
  shows "started_inv pf n a (main pf sched n a)"
  using assms by (simp add: main_def created_def inv_run inv_start)

text \<open>The thread stays undispatched exactly as long as the schedule gives it no turn.\<close>

lemma fresh_start:
  assumes "created pf"
  shows "fresh (main_to_start pf n a)"
  using assms by (simp add: created_def main_to_start_created fresh_def)

lemma fresh_boot_step:
  assumes "started_inv pf n a s" and "status s = Alive"
  shows "fresh (main_after_start s) \<longleftrightarrow> fresh s"
proof -
  from assms(1) obtain t post where
    mt: "main_thread s = Some t" and bi: "boot_inv pf s t post"
    by (auto simp: started_inv_def)
  show ?thesis
  proof (cases "th_state t = Terminated")
    case True
    then show ?thesis
      using mt by (cases "boot s") (simp_all add: fresh_def main_after_start_def join_returns_def emit_def)
  next
    case False
    then have "boot s \<noteq> At_return" using bi by (auto simp: boot_inv_def)
    then show ?thesis
      using mt False by (cases "boot s") (simp_all add: fresh_def main_after_start_def join_returns_def emit_def)
  qed
qed

lemma not_fresh_dispatch:
  assumes "started_inv pf n a s" and "status s = Alive"
  shows "\<not> fresh (dispatch pf s)"
proof -
  from assms(1) obtain t post where
    st: "args s = capsule pf n a" "sched_started s" "main_thread s = Some t" and
    ti: "thread_inv pf n a s t post"
    by (auto simp: started_inv_def)
  have tf: "th_func t = main_trampoline" "th_args t = addr_args pf"
    using ti by (simp_all add: thread_inv_def)
  show ?thesis
    using st tf
    by (cases "os_main pf n a")
       (simp_all add: fresh_def dispatch_def trampoline_capsule emit_def)
qed

lemma fresh_not_alive: "status s \<noteq> Alive \<Longrightarrow> \<not> fresh s"
  by (simp add: fresh_def)

lemma fresh_step:
  assumes "started_inv pf n a s"
  shows "fresh (step pf c s) \<longleftrightarrow> fresh s \<and> c = Boot"
proof (cases "status s = Alive")
  case True
  then show ?thesis
    using assms by (cases c) (simp_all add: step_def fresh_boot_step not_fresh_dispatch)
next
  case False
  then show ?thesis by (simp add: step_def fresh_not_alive)
qed

lemma fresh_run:
  assumes "started_inv pf n a s"
  shows "fresh (run pf sched s) \<longleftrightarrow> fresh s \<and> Main_thread \<notin> set sched"
  using assms
proof (induction sched arbitrary: s)
  case Nil
  then show ?case by simp
next
  case (Cons c cs)
  then have "fresh (run pf cs (step pf c s)) \<longleftrightarrow> fresh (step pf c s) \<and> Main_thread \<notin> set cs"
    by (simp add: inv_step)
  then show ?case
    using Cons.prems by (cases c) (auto simp: fresh_step)
qed

lemma fresh_main:
  assumes "created pf"
  shows "fresh (main pf sched n a) \<longleftrightarrow> Main_thread \<notin> set sched"
  using assms
  by (simp add: main_def fresh_run [OF inv_start] fresh_start created_def)


lemma main_trace_created:
  assumes "created pf"
  obtains post where "trace (main pf sched n a) = driver_trace pf n a @ Started # post"
    and "create_attempts post = []" and "stores post = []"
  using main_inv [OF assms, of n a sched] by (auto simp: started_inv_def)

lemma main_args: "args (main pf sched n a) = capsule pf n a"
proof (cases "created pf")
  case True
  then show ?thesis using main_inv [of pf n a sched] by (simp add: started_inv_def)
next
  case False
  then show ?thesis by (simp add: main_fatal)
qed

lemma main_attr_eq: "attr (main pf sched n a) = main_attr pf"
proof (cases "created pf")
  case True
  then show ?thesis using main_inv [of pf n a sched] by (simp add: started_inv_def)
next
  case False
  then show ?thesis by (simp add: main_fatal)
qed

lemma main_create_attempts:
  "create_attempts (trace (main pf sched n a)) = [(True, main_attr pf, addr_args pf)]"
proof (cases "created pf")
  case True
  then obtain post where "trace (main pf sched n a) = driver_trace pf n a @ Started # post"
    and "create_attempts post = []"
    by (rule main_trace_created)
  then show ?thesis by (simp add: driver_trace_def)
next
  case False
  then show ?thesis by (simp add: main_fatal driver_trace_def)
qed

lemma main_thread_attr:
  assumes "main_thread (main pf sched n a) = Some t"
  shows "th_attr t = main_attr pf \<and> th_func t = main_trampoline \<and> th_args t = addr_args pf"
proof (cases "created pf")
  case True
  then show ?thesis
    using main_inv [of pf n a sched] assms by (auto simp: started_inv_def thread_inv_def)
next
  case False
  then show ?thesis using assms by (simp add: main_fatal)
qed

lemma inv_reads:
  assumes "started_inv pf n a s"
  shows "loads (trace s) = (if fresh s then [] else [capsule pf n a])
       \<and> calls (trace s) = (if fresh s then [] else [(os_main pf, n, a)])"
proof -
  from assms obtain t post where
    st: "main_thread s = Some t" "trace s = driver_trace pf n a @ Started # post" and
    ti: "thread_inv pf n a s t post"
    by (auto simp: started_inv_def)
  show ?thesis
    using st ti
    by (cases "th_state t"; cases "status s")
       (simp_all add: thread_inv_def fresh_def driver_trace_def)
qed

text \<open>Once the thread has ended, each turn of the first context moves it one statement on.\<close>

lemma boot_advances:
  assumes "started_inv pf n a s" and "start_returns pf" and "terminated s"
  shows "terminated (step pf Boot s)
       \<and> boot (step pf Boot s) =
           (case boot s of At_join \<Rightarrow> In_join | In_join \<Rightarrow> At_return | _ \<Rightarrow> Left_main)"
proof -
  from assms(1) obtain t post where
    st: "main_thread s = Some t" and bi: "boot_inv pf s t post"
    by (auto simp: started_inv_def)
  have T: "th_state t = Terminated" using assms(3) st by (simp add: terminated_def)
  have b: "boot s \<in> {At_join, In_join, At_return, Left_main}"
    using bi assms(2) by (simp add: boot_inv_def)
  have l: "status s \<noteq> Alive \<longrightarrow> boot s = Left_main"
    using bi assms(1) st
    by (cases "status s") (auto simp: boot_inv_def started_inv_def thread_inv_def T)
  show ?thesis
    using st T b l
    by (cases "status s = Alive"; cases "boot s")
       (simp_all add: step_def main_after_start_def join_returns_def emit_def terminated_def)
qed

lemma join_completes:
  assumes "started_inv pf n a s" and "start_returns pf" and "os_main pf n a = Thread_exits"
  shows "status (run pf [Main_thread, Boot, Boot, Boot] s) = Returned 0"
proof -
  let ?s1 = "step pf Main_thread s"
  let ?s2 = "step pf Boot ?s1"
  let ?s3 = "step pf Boot ?s2"
  let ?s4 = "step pf Boot ?s3"
  have i1: "started_inv pf n a ?s1" using assms(1) by (rule inv_step)
  have nf: "\<not> fresh ?s1" using assms(1) by (simp add: fresh_step)
  from i1 obtain t post where
    st: "main_thread ?s1 = Some t" and ti: "thread_inv pf n a ?s1 t post"
    by (auto simp: started_inv_def)
  have t1: "terminated ?s1"
    using st ti nf assms(3)
    by (cases "th_state t"; cases "status ?s1")
       (simp_all add: thread_inv_def fresh_def terminated_def)
  have i2: "started_inv pf n a ?s2" using i1 by (rule inv_step)
  have i3: "started_inv pf n a ?s3" using i2 by (rule inv_step)
  have i4: "started_inv pf n a ?s4" using i3 by (rule inv_step)
  note a2 = boot_advances [OF i1 assms(2) t1]
  note a3 = boot_advances [OF i2 assms(2) conjunct1 [OF a2]]
  note a4 = boot_advances [OF i3 assms(2) conjunct1 [OF a3]]
  have "boot ?s4 = Left_main"
    using a2 a3 a4 by (simp split: boot_pc.splits)
  then have "status ?s4 = Returned 0"
    using i4 by (auto simp: started_inv_def boot_inv_def)
  then show ?thesis by simp
qed

section \<open>The trampoline: claims C1 and C2\<close>

text \<open>
  C1. Whatever integer the user entry point returns, negative and zero included, is the
  status of the termination request the trampoline issues: the trampoline ends in
  \<^verbatim>\<open>std::exit\<close> with exactly that value, and issues no other request.
\<close>

theorem trampoline_exit_status_verbatim:
  assumes "mem p = Some c" and "func c = Some f" and "f (argc c) (argv c) = Returns v"
  shows "snd (main_trampoline mem p) = Process_exit v
       \<and> exit_requests (fst (main_trampoline mem p)) = [v]"
  using assms by (simp add: main_trampoline_def exit_requests_def)

theorem trampoline_exit_status_verbatim_witness:
  "snd (main_trampoline [100 \<mapsto> \<lparr>func = Some (\<lambda>n a. Returns (- 1)), argc = 1, argv = 50\<rparr>] 100)
     = Process_exit (- 1)
   \<and> exit_requests
       (fst (main_trampoline [100 \<mapsto> \<lparr>func = Some (\<lambda>n a. Returns (- 1)), argc = 1, argv = 50\<rparr>] 100))
     = [- 1]
   \<and> sint (- 1 :: cint) < 0"
  using trampoline_exit_status_verbatim
    [of "[100 \<mapsto> \<lparr>func = Some (\<lambda>n a. Returns (- 1)), argc = 1, argv = 50\<rparr>]" 100
        "\<lparr>func = Some (\<lambda>n a. Returns (- 1)), argc = 1, argv = 50\<rparr>"
        "\<lambda>n a. Returns (- 1)" "- 1"]
  by simp

text \<open>
  C2. Given a pointer to a capsule holding an entry point, a count and a vector, the
  trampoline calls that entry point exactly once, with exactly the stored count and
  vector, whatever the call then does; and when the call returns, what follows the call
  is the termination request with the result, and nothing else.
\<close>

theorem trampoline_calls_entry_once:
  assumes "mem p = Some c" and "func c = Some f"
  shows "calls (fst (main_trampoline mem p)) = [(f, argc c, argv c)]
       \<and> (\<forall>v. f (argc c) (argv c) = Returns v \<longrightarrow>
             fst (main_trampoline mem p) = [Loaded c, Called f (argc c) (argv c), Exit_requested v]
           \<and> snd (main_trampoline mem p) = Process_exit v)"
  using assms by (simp add: main_trampoline_def calls_def split: user_result.split)

theorem trampoline_calls_entry_once_witness:
  "calls (fst (main_trampoline [100 \<mapsto> \<lparr>func = Some (\<lambda>n a. Returns (n + 4)), argc = 3, argv = 50\<rparr>] 100))
     = [(\<lambda>n a. Returns (n + 4), 3, 50)]
   \<and> fst (main_trampoline [100 \<mapsto> \<lparr>func = Some (\<lambda>n a. Returns (n + 4)), argc = 3, argv = 50\<rparr>] 100)
     = [Loaded \<lparr>func = Some (\<lambda>n a. Returns (n + 4)), argc = 3, argv = 50\<rparr>,
        Called (\<lambda>n a. Returns (n + 4)) 3 50, Exit_requested 7]
   \<and> snd (main_trampoline [100 \<mapsto> \<lparr>func = Some (\<lambda>n a. Returns (n + 4)), argc = 3, argv = 50\<rparr>] 100)
     = Process_exit 7"
  using trampoline_calls_entry_once
    [of "[100 \<mapsto> \<lparr>func = Some (\<lambda>n a. Returns (n + 4)), argc = 3, argv = 50\<rparr>]" 100
        "\<lparr>func = Some (\<lambda>n a. Returns (n + 4)), argc = 3, argv = 50\<rparr>"
        "\<lambda>n a. Returns (n + 4)"]
  by (simp add: calls_def)

section \<open>The bootstrap: claims C5, C6, C7, C8 and C10\<close>

text \<open>
  C5. In every run of main, under every schedule and on every platform, the scheduler
  is initialised before the thread is created, each of the three members of the capsule
  is stored before the thread is created, and the thread is created before the scheduler
  is started. There is exactly one attempt to create a thread, and what it saw was an
  initialised scheduler.
\<close>

theorem bootstrap_order:
  "precedes (\<lambda>e. e = Initialized) is_create (trace (main pf sched n a))
   \<and> precedes (\<lambda>e. e = Stored_func (os_main pf)) is_create (trace (main pf sched n a))
   \<and> precedes (\<lambda>e. e = Stored_argc n) is_create (trace (main pf sched n a))
   \<and> precedes (\<lambda>e. e = Stored_argv a) is_create (trace (main pf sched n a))
   \<and> precedes is_create (\<lambda>e. e = Started) (trace (main pf sched n a))
   \<and> map fst (create_attempts (trace (main pf sched n a))) = [True]"
proof (cases "created pf")
  case True
  then obtain post where "trace (main pf sched n a) = driver_trace pf n a @ Started # post"
    and "create_attempts post = []"
    by (rule main_trace_created)
  then show ?thesis by (simp add: driver_trace_def)
next
  case False
  then show ?thesis by (simp add: main_fatal driver_trace_def)
qed

theorem bootstrap_order_witness:
  "precedes (\<lambda>e. e = Initialized) is_create (trace (main host_build [Boot, Main_thread] 3 50))
   \<and> precedes (\<lambda>e. e = Stored_func (os_main host_build)) is_create
        (trace (main host_build [Boot, Main_thread] 3 50))
   \<and> precedes (\<lambda>e. e = Stored_argc 3) is_create (trace (main host_build [Boot, Main_thread] 3 50))
   \<and> precedes (\<lambda>e. e = Stored_argv 50) is_create (trace (main host_build [Boot, Main_thread] 3 50))
   \<and> precedes is_create (\<lambda>e. e = Started) (trace (main host_build [Boot, Main_thread] 3 50))
   \<and> map fst (create_attempts (trace (main host_build [Boot, Main_thread] 3 50))) = [True]"
  by (rule bootstrap_order)

text \<open>
  C6. The stack address and the stack size in the thread attributes are the address of
  \<^verbatim>\<open>main_stack\<close> and its size in bytes, the number of its elements times the size of one:
  in the static \<^verbatim>\<open>attr\<close> at every moment from the start on, in what the thread constructor
  was given, and in the thread it made.
\<close>

theorem stack_attributes_match_buffer:
  "th_stack_address (attr (main pf sched n a)) = addr_main_stack pf
   \<and> th_stack_size_bytes (attr (main pf sched n a)) = main_stack_elements pf * sizeof_element_t pf
   \<and> map (fst \<circ> snd) (create_attempts (trace (main pf sched n a))) = [attr (main pf sched n a)]
   \<and> (case main_thread (main pf sched n a) of
         None \<Rightarrow> True
       | Some t \<Rightarrow> th_attr t = attr (main pf sched n a))"
  by (simp add: main_attr_eq main_create_attempts main_attr_def sizeof_main_stack_def
      main_thread_attr split: option.split)

theorem stack_attributes_match_buffer_witness:
  "th_stack_address (attr (main host_build [Main_thread] 3 50)) = 200
   \<and> th_stack_size_bytes (attr (main host_build [Main_thread] 3 50)) = 128 * 8
   \<and> map (fst \<circ> snd) (create_attempts (trace (main host_build [Main_thread] 3 50)))
       = [attr (main host_build [Main_thread] 3 50)]
   \<and> (case main_thread (main host_build [Main_thread] 3 50) of
         None \<Rightarrow> True
       | Some t \<Rightarrow> th_attr t = attr (main host_build [Main_thread] 3 50))"
  using stack_attributes_match_buffer [of host_build "[Main_thread]" 3 50]
  by (simp add: host_build_def main_stack_elements_def)

text \<open>
  C7. With the configured stack size 0, main ends in the fatal error of the thread
  constructor and no thread exists. The log shows that main made the one attempt, with
  the size 0 handed over as it was, and did nothing after it failed: no check of its
  own, no second attempt, no start of the scheduler.
\<close>

theorem zero_stack_size_is_fatal:
  assumes "OS_INTEGER_RTOS_MAIN_STACK_SIZE_BYTES pf = 0"
  shows "status (main pf sched n a) = Fatal
       \<and> main_thread (main pf sched n a) = None
       \<and> trace (main pf sched n a) =
           [Printed, Initialized, Stored_func (os_main pf), Stored_argc n, Stored_argv a,
            Attr_constructed ''main'', Stored_stack_address (addr_main_stack pf),
            Stored_stack_size 0,
            Create_attempt True
              \<lparr>th_name = ''main'', th_stack_address = addr_main_stack pf,
               th_stack_size_bytes = 0\<rparr> (addr_args pf)]"
proof -
  have z: "sizeof_main_stack pf = 0"
    using assms by (simp add: sizeof_main_stack_def main_stack_elements_def)
  then have "\<not> created pf" by (simp add: created_def)
  then show ?thesis
    by (simp add: main_fatal driver_trace_def main_attr_def z)
qed

theorem zero_stack_size_is_fatal_witness:
  "status (main (host_build\<lparr>OS_INTEGER_RTOS_MAIN_STACK_SIZE_BYTES := 0\<rparr>) [Boot, Main_thread] 3 50)
     = Fatal
   \<and> main_thread (main (host_build\<lparr>OS_INTEGER_RTOS_MAIN_STACK_SIZE_BYTES := 0\<rparr>) [Boot, Main_thread] 3 50)
     = None
   \<and> create_attempts
       (trace (main (host_build\<lparr>OS_INTEGER_RTOS_MAIN_STACK_SIZE_BYTES := 0\<rparr>) [Boot, Main_thread] 3 50))
     = [(True, \<lparr>th_name = ''main'', th_stack_address = 200, th_stack_size_bytes = 0\<rparr>, 100)]"
  using zero_stack_size_is_fatal
    [of "host_build\<lparr>OS_INTEGER_RTOS_MAIN_STACK_SIZE_BYTES := 0\<rparr>" "[Boot, Main_thread]" 3 50]
  by (simp add: host_build_def create_attempts_def)

text \<open>
  C8. Each member of the capsule is stored exactly once, with the entry point
  \<^verbatim>\<open>os_main\<close> and main's own count and vector, unchecked; no store is at or after the
  creation of the thread; the capsule holds these values in every state main reaches;
  and the trampoline reads it exactly once if the thread is ever dispatched (not at all
  otherwise), finds these values and calls with them.
\<close>

theorem capsule_written_once_read_once:
  "stores (trace (main pf sched n a)) = [Stored_func (os_main pf), Stored_argc n, Stored_argv a]
   \<and> stores (dropWhile (\<lambda>e. \<not> is_create e) (trace (main pf sched n a))) = []
   \<and> args (main pf sched n a) = \<lparr>func = Some (os_main pf), argc = n, argv = a\<rparr>
   \<and> loads (trace (main pf sched n a)) =
       (if created pf \<and> Main_thread \<in> set sched
        then [\<lparr>func = Some (os_main pf), argc = n, argv = a\<rparr>] else [])
   \<and> calls (trace (main pf sched n a)) =
       (if created pf \<and> Main_thread \<in> set sched then [(os_main pf, n, a)] else [])"
proof (cases "created pf")
  case True
  obtain post where "trace (main pf sched n a) = driver_trace pf n a @ Started # post"
    and "stores post = []"
    using True by (rule main_trace_created)
  then have "stores (trace (main pf sched n a)) = [Stored_func (os_main pf), Stored_argc n, Stored_argv a]"
    and "stores (dropWhile (\<lambda>e. \<not> is_create e) (trace (main pf sched n a))) = []"
    by (simp_all add: driver_trace_def)
  moreover have "loads (trace (main pf sched n a)) =
       (if Main_thread \<in> set sched then [capsule pf n a] else [])"
    and "calls (trace (main pf sched n a)) =
       (if Main_thread \<in> set sched then [(os_main pf, n, a)] else [])"
    using inv_reads [OF main_inv [OF True, of n a sched]] fresh_main [OF True, of sched n a]
    by simp_all
  ultimately show ?thesis
    using True by (simp add: main_args capsule_def)
next
  case False
  then show ?thesis
    by (simp add: main_fatal driver_trace_def capsule_def)
qed

theorem capsule_written_once_read_once_witness:
  "stores (trace (main host_build [Boot, Main_thread] 3 50))
     = [Stored_func (os_main host_build), Stored_argc 3, Stored_argv 50]
   \<and> stores (dropWhile (\<lambda>e. \<not> is_create e) (trace (main host_build [Boot, Main_thread] 3 50))) = []
   \<and> args (main host_build [Boot, Main_thread] 3 50)
     = \<lparr>func = Some (os_main host_build), argc = 3, argv = 50\<rparr>
   \<and> loads (trace (main host_build [Boot, Main_thread] 3 50))
     = [\<lparr>func = Some (os_main host_build), argc = 3, argv = 50\<rparr>]
   \<and> calls (trace (main host_build [Boot, Main_thread] 3 50)) = [(os_main host_build, 3, 50)]"
proof -
  have "created host_build"
    by (simp add: created_def sizeof_main_stack_def main_stack_elements_def host_build_def)
  then show ?thesis
    using capsule_written_once_read_once [of host_build "[Boot, Main_thread]" 3 50]
    by simp
qed

text \<open>
  C10. The stack size main installs, and hands to the thread constructor, is the
  configured constant divided by the element size, times the element size: the constant
  rounded down to a multiple of the element size. When the constant is not such a
  multiple, the installed size is strictly less than the constant.
\<close>

theorem installed_stack_size_rounded_down:
  "th_stack_size_bytes (attr (main pf sched n a))
     = (OS_INTEGER_RTOS_MAIN_STACK_SIZE_BYTES pf div sizeof_element_t pf) * sizeof_element_t pf
   \<and> map (th_stack_size_bytes \<circ> fst \<circ> snd) (create_attempts (trace (main pf sched n a)))
     = [(OS_INTEGER_RTOS_MAIN_STACK_SIZE_BYTES pf div sizeof_element_t pf) * sizeof_element_t pf]
   \<and> (OS_INTEGER_RTOS_MAIN_STACK_SIZE_BYTES pf mod sizeof_element_t pf \<noteq> 0 \<longrightarrow>
        th_stack_size_bytes (attr (main pf sched n a)) < OS_INTEGER_RTOS_MAIN_STACK_SIZE_BYTES pf)"
proof -
  have "m mod e \<noteq> 0 \<longrightarrow> (m div e) * e < m" for m e :: nat
    by (metis div_mult_mod_eq less_add_same_cancel1 neq0_conv)
  then show ?thesis
    by (simp add: main_attr_eq main_create_attempts main_attr_def sizeof_main_stack_def
        main_stack_elements_def)
qed

theorem installed_stack_size_rounded_down_witness:
  "th_stack_size_bytes (attr (main host_build [] 3 50)) = 1024
   \<and> map (th_stack_size_bytes \<circ> fst \<circ> snd) (create_attempts (trace (main host_build [] 3 50)))
     = [1024]
   \<and> th_stack_size_bytes (attr (main host_build [] 3 50)) < 1030
   \<and> (1030 :: nat) mod 8 \<noteq> 0"
  using installed_stack_size_rounded_down [of host_build "[]" 3 50]
  by (simp add: host_build_def)

section \<open>After the start: claims C3 and C4\<close>

text \<open>
  C3. Where \<^verbatim>\<open>scheduler::start\<close> does not return, nothing of main after the call ever
  runs (no join, no return) and the run is never in an undefined state. Where it
  returns, a join returns only after it was called and after the thread has ended, main
  returns only after the join has, and only 0; and if the thread does end, then from any
  point on, one turn of the thread and three of the first context bring main to return 0.
\<close>

theorem lifetime_synchronizer_dual_contract:
  "(\<not> start_returns pf \<longrightarrow>
       Join_called \<notin> set (trace (main pf sched n a))
     \<and> Join_returned \<notin> set (trace (main pf sched n a))
     \<and> main_returns (trace (main pf sched n a)) = []
     \<and> (\<forall>r. status (main pf sched n a) \<noteq> Returned r)
     \<and> status (main pf sched n a) \<noteq> Undefined)
   \<and> (start_returns pf \<longrightarrow>
       precedes (\<lambda>e. e = Join_called) (\<lambda>e. e = Join_returned) (trace (main pf sched n a))
     \<and> precedes (\<lambda>e. e = Thread_terminated) (\<lambda>e. e = Join_returned) (trace (main pf sched n a))
     \<and> precedes (\<lambda>e. e = Join_returned) (\<lambda>e. e = Main_returned 0) (trace (main pf sched n a))
     \<and> main_returns (trace (main pf sched n a))
         = (if status (main pf sched n a) = Returned 0 then [0] else [])
     \<and> (\<forall>r. status (main pf sched n a) = Returned r \<longrightarrow> r = 0)
     \<and> (created pf \<and> os_main pf n a = Thread_exits \<longrightarrow>
          status (main pf (sched @ [Main_thread, Boot, Boot, Boot]) n a) = Returned 0))"
proof (cases "created pf")
  case True
  let ?s = "main pf sched n a"
  have i: "started_inv pf n a ?s" using True by (rule main_inv)
  then obtain t post where
    st: "main_thread ?s = Some t" "trace ?s = driver_trace pf n a @ Started # post" and
    ti: "thread_inv pf n a ?s t post" and bi: "boot_inv pf ?s t post"
    by (auto simp: started_inv_def)
  have u: "status ?s \<noteq> Undefined"
    using ti by (cases "th_state t"; cases "status ?s") (simp_all add: thread_inv_def)
  have never: "Join_called \<notin> set (trace ?s) \<and> Join_returned \<notin> set (trace ?s)
     \<and> main_returns (trace ?s) = [] \<and> (\<forall>r. status ?s \<noteq> Returned r)"
    if "\<not> start_returns pf"
    using bi st that by (simp add: boot_inv_def driver_trace_def)
  have order: "precedes (\<lambda>e. e = Join_called) (\<lambda>e. e = Join_returned) (trace ?s)
     \<and> precedes (\<lambda>e. e = Thread_terminated) (\<lambda>e. e = Join_returned) (trace ?s)
     \<and> precedes (\<lambda>e. e = Join_returned) (\<lambda>e. e = Main_returned 0) (trace ?s)
     \<and> main_returns (trace ?s) = (if status ?s = Returned 0 then [0] else [])
     \<and> (\<forall>r. status ?s = Returned r \<longrightarrow> r = 0)"
    using bi st by (simp add: boot_inv_def driver_trace_def)
  have live: "status (main pf (sched @ [Main_thread, Boot, Boot, Boot]) n a) = Returned 0"
    if "start_returns pf" and "os_main pf n a = Thread_exits"
    using join_completes [OF i that] by (simp add: main_def run_append)
  show ?thesis using u never order live by blast
next
  case False
  then show ?thesis by (simp add: main_fatal driver_trace_def)
qed

theorem lifetime_synchronizer_dual_contract_witness:
  "Join_called \<notin> set (trace (main embedded_build [Boot, Main_thread, Boot] 3 50))
   \<and> Join_returned \<notin> set (trace (main embedded_build [Boot, Main_thread, Boot] 3 50))
   \<and> main_returns (trace (main embedded_build [Boot, Main_thread, Boot] 3 50)) = []
   \<and> status (main embedded_build [Boot, Main_thread, Boot] 3 50) \<noteq> Undefined
   \<and> precedes (\<lambda>e. e = Thread_terminated) (\<lambda>e. e = Join_returned)
        (trace (main host_build [Boot] 1 50))
   \<and> precedes (\<lambda>e. e = Join_returned) (\<lambda>e. e = Main_returned 0)
        (trace (main host_build [Boot] 1 50))
   \<and> status (main host_build ([Boot] @ [Main_thread, Boot, Boot, Boot]) 1 50) = Returned 0"
proof -
  have e: "\<not> start_returns embedded_build"
    by (simp add: embedded_build_def host_build_def)
  have h: "start_returns host_build" "os_main host_build 1 50 = Thread_exits"
    "created host_build"
    by (simp_all add: created_def sizeof_main_stack_def main_stack_elements_def host_build_def)
  show ?thesis
    using lifetime_synchronizer_dual_contract [of embedded_build "[Boot, Main_thread, Boot]" 3 50]
      lifetime_synchronizer_dual_contract [of host_build "[Boot]" 1 50] e h
    by simp
qed

text \<open>
  C4. When the user entry point returns, main never reaches its \<^verbatim>\<open>return 0\<close>, under any
  schedule and on any kernel: the join never returns and main never returns. Once the
  thread has been dispatched, the process has ended in \<^verbatim>\<open>std::exit\<close> with the value the
  entry point returned.
\<close>

theorem return_0_not_reached_when_entry_returns:
  assumes "os_main pf n a = Returns v"
  shows "main_returns (trace (main pf sched n a)) = []
       \<and> Join_returned \<notin> set (trace (main pf sched n a))
       \<and> (\<forall>r. status (main pf sched n a) \<noteq> Returned r)
       \<and> (created pf \<and> Main_thread \<in> set sched \<longrightarrow>
            status (main pf sched n a) = Exited v
          \<and> exit_requests (trace (main pf sched n a)) = [v])"
proof (cases "created pf")
  case True
  let ?s = "main pf sched n a"
  from main_inv [OF True, of n a sched] obtain t post where
    st: "main_thread ?s = Some t" "trace ?s = driver_trace pf n a @ Started # post" and
    ti: "thread_inv pf n a ?s t post" and bi: "boot_inv pf ?s t post"
    by (auto simp: started_inv_def)
  have R: "th_state t = Ready"
    using ti assms by (cases "th_state t") (simp_all add: thread_inv_def)
  then have nb: "boot ?s \<noteq> At_return" "boot ?s \<noteq> Left_main"
    using bi by (auto simp: boot_inv_def)
  have 1: "main_returns (trace ?s) = []" "Join_returned \<notin> set (trace ?s)"
    "\<forall>r. status ?s \<noteq> Returned r"
    using bi nb st by (simp_all add: boot_inv_def driver_trace_def)
  have 2: "status ?s = Exited v \<and> exit_requests (trace ?s) = [v]" if "Main_thread \<in> set sched"
  proof -
    have "\<not> fresh ?s" using that fresh_main [OF True, of sched n a] by simp
    then have "status ?s \<noteq> Alive" using st R by (simp add: fresh_def)
    then show ?thesis
      using ti R assms st
      by (cases "status ?s") (simp_all add: thread_inv_def driver_trace_def)
  qed
  show ?thesis using 1 2 by simp
next
  case False
  then show ?thesis by (simp add: main_fatal driver_trace_def)
qed

theorem return_0_not_reached_when_entry_returns_witness:
  "main_returns (trace (main host_build [Boot, Main_thread, Boot, Boot] 3 50)) = []
   \<and> Join_returned \<notin> set (trace (main host_build [Boot, Main_thread, Boot, Boot] 3 50))
   \<and> status (main host_build [Boot, Main_thread, Boot, Boot] 3 50) = Exited 7
   \<and> exit_requests (trace (main host_build [Boot, Main_thread, Boot, Boot] 3 50)) = [7]"
proof -
  have h: "os_main host_build 3 50 = Returns 7" "created host_build"
    by (simp_all add: created_def sizeof_main_stack_def main_stack_elements_def host_build_def)
  show ?thesis
    using return_0_not_reached_when_entry_returns
      [of host_build 3 50 7 "[Boot, Main_thread, Boot, Boot]"] h
    by simp
qed

end
